theory Spec2Isabelle
  imports Main
begin

section \<open>Python strings and byte strings\<close>

text \<open>
  A Python \<open>str\<close> is a sequence of Unicode code points and \<open>len\<close> counts code
  points, so a string is a list of code-point numbers; a \<open>bytes\<close> object is a list of
  numbers below 256. \<open>str\<close> turns an ASCII literal into such a list.
\<close>

type_synonym pystr = "nat list"
type_synonym pybytes = "nat list"

definition str :: "string \<Rightarrow> pystr" where
  "str s = map of_char s"

text \<open>
  The characters a well-formed text is made of: the Unicode scalar values, that is every
  code point up to U+10FFFF outside the surrogate block U+D800..U+DFFF.
\<close>

definition is_scalar :: "nat \<Rightarrow> bool" where
  "is_scalar c = (c < 0xD800 \<or> (0xE000 \<le> c \<and> c < 0x110000))"

definition wf_text :: "pystr \<Rightarrow> bool" where
  "wf_text s = list_all is_scalar s"

datatype exn = UnicodeEncodeError

text \<open>
  \<open>str.encode('utf-8', 'strict')\<close>: one to four bytes per code point; a surrogate
  cannot be encoded and raises \<open>UnicodeEncodeError\<close> (the value \<open>None\<close>).
\<close>

definition utf8_char :: "nat \<Rightarrow> pybytes option" where
  "utf8_char c =
     (if c < 0x80 then Some [c]
      else if c < 0x800 then Some [0xC0 + c div 0x40, 0x80 + c mod 0x40]
      else if 0xD800 \<le> c \<and> c < 0xE000 then None
      else if c < 0x10000 then
        Some [0xE0 + c div 0x1000, 0x80 + c div 0x40 mod 0x40, 0x80 + c mod 0x40]
      else if c < 0x110000 then
        Some [0xF0 + c div 0x40000, 0x80 + c div 0x1000 mod 0x40,
              0x80 + c div 0x40 mod 0x40, 0x80 + c mod 0x40]
      else None)"

fun encode :: "pystr \<Rightarrow> pybytes option" where
  "encode [] = Some []"
| "encode (c # cs) =
     (case utf8_char c of
        None \<Rightarrow> None
      | Some bs \<Rightarrow> (case encode cs of None \<Rightarrow> None | Some rest \<Rightarrow> Some (bs @ rest)))"

text \<open>\<open>s.replace(old, new)\<close> for one-character \<open>old\<close> and \<open>new\<close>.\<close>

definition replace :: "nat \<Rightarrow> nat \<Rightarrow> pystr \<Rightarrow> pystr" where
  "replace old new s = map (\<lambda>c. if c = old then new else c) s"

section \<open>\<open>urllib.parse.quote_plus\<close>\<close>

text \<open>
  The library function the Query Builder calls. \<open>_ALWAYS_SAFE\<close> is the set of bytes
  that are never escaped; \<open>quoter\<close> is \<open>_Quoter.__missing__\<close>:
  \<^verbatim>\<open>chr(b) if b in self.safe else '%{:02X}'.format(b)\<close>.
\<close>

definition ALWAYS_SAFE :: "nat list" where
  "ALWAYS_SAFE = str (''ABCDEFGHIJKLMNOPQRSTUVWXYZ'' @ ''abcdefghijklmnopqrstuvwxyz''
                       @ ''0123456789'' @ ''_.-~'')"

definition hexdigit :: "nat \<Rightarrow> nat" where
  "hexdigit d = (if d < 10 then 48 + d else 55 + d)"

definition quoter :: "nat list \<Rightarrow> nat \<Rightarrow> pystr" where
  "quoter safe b =
     (if b \<in> set ALWAYS_SAFE \<or> b \<in> set safe then [b]
      else [37, hexdigit (b div 16), hexdigit (b mod 16)])"

definition quote_from_bytes :: "pybytes \<Rightarrow> nat list \<Rightarrow> pystr" where
  "quote_from_bytes bs safe = concat (map (quoter safe) bs)"

definition quote :: "pystr \<Rightarrow> nat list \<Rightarrow> exn + pystr" where
  "quote string safe =
     (if string = [] then Inr string
      else case encode string of
             None \<Rightarrow> Inl UnicodeEncodeError
           | Some bs \<Rightarrow> Inr (quote_from_bytes bs safe))"

definition quote_plus :: "pystr \<Rightarrow> exn + pystr" where
  "quote_plus string =
     (if 32 \<notin> set string then quote string []
      else case quote string ([] @ [32]) of
             Inl e \<Rightarrow> Inl e
           | Inr q \<Rightarrow> Inr (replace 32 43 q))"

section \<open>The Query Builder: \<open>process_recognition_result\<close>\<close>

text \<open>
  A dictionary literal is the association list of its items, in insertion order.
  The message stored under \<open>error\<close> is the Korean sentence of the source, as code points.
  What \<open>print\<close> writes is kept as a list of messages, one constructor per
  \<open>print\<close> statement of the two scripts (the text of a caught exception, which some
  of them append, is left out).
\<close>

type_synonym dict = "(string \<times> pystr) list"

definition no_lyrics_message :: pystr where
  "no_lyrics_message =
     [44032, 49324, 47484, 32, 51064, 49885, 54616, 51648, 32,
      47803, 54664, 49845, 45768, 45796, 46]"

definition youtube_search :: pystr where
  "youtube_search = str ''https://www.youtube.com/results?search_query=''"

definition bugs_search :: pystr where
  "bugs_search = str ''https://music.bugs.co.kr/search/lyrics?q=''"

datatype message =
    MsgNoText | MsgCreatedUrl pystr
  | MsgDriverStarted | MsgDriverFailed | MsgPageOpened pystr | MsgPageFailed
  | MsgFirstPlayClicked | MsgFirstPlayFailed | MsgPlayerSelectSkipped
  | MsgSwitched | MsgNoNewWindow | MsgSwitchFailed
  | MsgPopupClosed | MsgPopupNotFound
  | MsgPlayClicked | MsgAudioPlayCalled | MsgPlayAllFailed
  | MsgShortsClicked | MsgShortsFailed | MsgVideoPlayCalled | MsgVideoPlayFailed

text \<open>\<open>main.py\<close>, lines 105-119. The function prints nothing.\<close>

definition process_recognition_result :: "pystr \<Rightarrow> exn + dict" where
  "process_recognition_result recognized_text =
     (if recognized_text = [] then Inr [(''error'', no_lyrics_message)]
      else case quote_plus recognized_text of
             Inl e \<Rightarrow> Inl e
           | Inr query \<Rightarrow>
               (let song_url = youtube_search @ query;
                    song_title = (if length recognized_text > 50
                                  then take 50 recognized_text @ str ''...''
                                  else recognized_text)
                in Inr [(''song_url'', song_url), (''song_title'', song_title)]))"

text \<open>
  \<open>main_etc.py\<close>, lines 109-123. This variant prints a line on both paths, so it takes
  the console written so far and returns it extended.
\<close>

definition process_recognition_result_etc ::
    "pystr \<Rightarrow> message list \<Rightarrow> (exn + dict) \<times> message list" where
  "process_recognition_result_etc recognized_text out =
     (if recognized_text = [] then
        (Inr [(''error'', no_lyrics_message)], out @ [MsgNoText])
      else case quote_plus recognized_text of
             Inl e \<Rightarrow> (Inl e, out)
           | Inr query \<Rightarrow>
               (let song_url = bugs_search @ query;
                    song_title = (if length recognized_text > 50
                                  then take 50 recognized_text @ str ''...''
                                  else recognized_text)
                in (Inr [(''song_url'', song_url), (''song_title'', song_title)],
                    out @ [MsgCreatedUrl song_url])))"

section \<open>Decoding, as the specification words it\<close>

text \<open>
  The specification speaks of percent-encoding the transcript and of percent-decoding
  the query parameter. These definitions follow its words (RFC 3986): every byte of the
  UTF-8 form that is not unreserved is written \<open>%XX\<close>; decoding reads \<open>%XX\<close> back
  to a byte, keeps every other ASCII character as it is, and decodes the bytes as strict
  UTF-8. \<open>unquote_plus\<close> is the decoding of form values, which first reads \<open>+\<close> as a
  space. \<open>query_value\<close> is the part of a URL after its first \<open>=\<close>.
\<close>

definition unreserved :: "nat \<Rightarrow> bool" where
  "unreserved b =
     ((65 \<le> b \<and> b \<le> 90) \<or> (97 \<le> b \<and> b \<le> 122) \<or> (48 \<le> b \<and> b \<le> 57)
      \<or> b = 45 \<or> b = 46 \<or> b = 95 \<or> b = 126)"

definition pct_byte :: "nat \<Rightarrow> pystr" where
  "pct_byte b = (if unreserved b then [b] else [37, hexdigit (b div 16), hexdigit (b mod 16)])"

definition percent_encode :: "pystr \<Rightarrow> pystr option" where
  "percent_encode s =
     (case encode s of None \<Rightarrow> None | Some bs \<Rightarrow> Some (concat (map pct_byte bs)))"

text \<open>
  \<open>plus_for_space\<close> rewrites a percent-encoded string the way form values are written:
  every escape \<open>%20\<close> becomes \<open>+\<close>, read from the left.
\<close>

fun plus_for_space :: "pystr \<Rightarrow> pystr" where
  "plus_for_space (a # b # c # rest) =
     (if a = 37 \<and> b = 50 \<and> c = 48 then 43 # plus_for_space rest
      else a # plus_for_space (b # c # rest))"
| "plus_for_space s = s"

definition unhex :: "nat \<Rightarrow> nat option" where
  "unhex c =
     (if 48 \<le> c \<and> c \<le> 57 then Some (c - 48)
      else if 65 \<le> c \<and> c \<le> 70 then Some (c - 55)
      else if 97 \<le> c \<and> c \<le> 102 then Some (c - 87)
      else None)"

fun percent_decode :: "pystr \<Rightarrow> pybytes option" where
  "percent_decode [] = Some []"
| "percent_decode (c # cs) =
     (if c = 37 then
        (case cs of
           h # l # rest \<Rightarrow>
             (case (unhex h, unhex l, percent_decode rest) of
                (Some a, Some b, Some bs) \<Rightarrow> Some ((16 * a + b) # bs)
              | _ \<Rightarrow> None)
         | _ \<Rightarrow> None)
      else if c < 128 then
        (case percent_decode cs of Some bs \<Rightarrow> Some (c # bs) | None \<Rightarrow> None)
      else None)"

definition cont :: "nat \<Rightarrow> bool" where
  "cont b = (0x80 \<le> b \<and> b < 0xC0)"

fun decode :: "pybytes \<Rightarrow> pystr option" where
  "decode [] = Some []"
| "decode (b0 # bs) =
     (if b0 < 0x80 then
        (case decode bs of Some cs \<Rightarrow> Some (b0 # cs) | None \<Rightarrow> None)
      else if 0xC0 \<le> b0 \<and> b0 < 0xE0 then
        (case bs of
           b1 # r \<Rightarrow>
             (let c = (b0 - 0xC0) * 0x40 + (b1 - 0x80)
              in if cont b1 \<and> 0x80 \<le> c then
                   (case decode r of Some cs \<Rightarrow> Some (c # cs) | None \<Rightarrow> None)
                 else None)
         | _ \<Rightarrow> None)
      else if 0xE0 \<le> b0 \<and> b0 < 0xF0 then
        (case bs of
           b1 # b2 # r \<Rightarrow>
             (let c = (b0 - 0xE0) * 0x1000 + (b1 - 0x80) * 0x40 + (b2 - 0x80)
              in if cont b1 \<and> cont b2 \<and> 0x800 \<le> c \<and> \<not> (0xD800 \<le> c \<and> c < 0xE000) then
                   (case decode r of Some cs \<Rightarrow> Some (c # cs) | None \<Rightarrow> None)
                 else None)
         | _ \<Rightarrow> None)
      else if 0xF0 \<le> b0 \<and> b0 < 0xF8 then
        (case bs of
           b1 # b2 # b3 # r \<Rightarrow>
             (let c = (b0 - 0xF0) * 0x40000 + (b1 - 0x80) * 0x1000
                      + (b2 - 0x80) * 0x40 + (b3 - 0x80)
              in if cont b1 \<and> cont b2 \<and> cont b3 \<and> 0x10000 \<le> c \<and> c < 0x110000 then
                   (case decode r of Some cs \<Rightarrow> Some (c # cs) | None \<Rightarrow> None)
                 else None)
         | _ \<Rightarrow> None)
      else None)"

definition unquote :: "pystr \<Rightarrow> pystr option" where
  "unquote s = (case percent_decode s of None \<Rightarrow> None | Some bs \<Rightarrow> decode bs)"

definition unquote_plus :: "pystr \<Rightarrow> pystr option" where
  "unquote_plus s = unquote (replace 43 32 s)"

definition query_value :: "pystr \<Rightarrow> pystr" where
  "query_value url = tl (dropWhile (\<lambda>c. c \<noteq> 61) url)"

text \<open>
  \<open>keys\<close> lists the keys of a dictionary, in order (\<open>d.keys()\<close>). \<open>title_rule\<close> is the
  title as the specification words it: the transcript itself up to 50 characters, and
  beyond that its first 50 characters followed by the marker.
\<close>

definition keys :: "dict \<Rightarrow> string list" where
  "keys d = map fst d"

definition title_rule :: "pystr \<Rightarrow> pystr" where
  "title_rule T = (if length T \<le> 50 then T else take 50 T @ str ''...'')"

section \<open>The browser session and the navigation sequence\<close>

text \<open>
  The browser is outside the program, so a run is taken against a simulated session: a
  record that fixes, for every driver call of the two scripts, whether the call raises
  and what it returns. Each call site is reached at most once in a run, so every run of
  the real program is the run against one such record. A selector stands for the XPath
  of a \<open>find_element\<close> call, a script for the JavaScript of an \<open>execute_script\<close> call:
  \<^item> \<open>ShortsLink\<close>: \<^verbatim>\<open>(//a[contains(@href, "/shorts/")])[1]\<close> (\<open>main.py\<close>);
  \<^item> \<open>FirstPlay\<close>: \<^verbatim>\<open>(//a[contains(@class,"btn play")])[1]\<close>;
  \<^item> \<open>ClosePopup\<close>: the \<open>btnClose\<close> button of the login overlay;
  \<^item> \<open>PlayBtn\<close>: the \<open>btnPlay\<close> button of the web player;
  \<^item> \<open>VideoPlay\<close>: \<^verbatim>\<open>document.getElementsByTagName('video')[0].play()\<close>;
  \<^item> \<open>AudioPlay\<close>: \<^verbatim>\<open>document.querySelector('audio').play();\<close>.
\<close>

type_synonym handle = string

datatype selector = ShortsLink | FirstPlay | ClosePopup | PlayBtn

datatype script = VideoPlay | AudioPlay

record browser =
  launch_fails :: bool
  get_fails :: bool
  find_fails :: "selector \<Rightarrow> bool"
  click_fails :: "selector \<Rightarrow> bool"
  current_handle_fails :: bool
  window_handles_fails :: bool
  opened_windows :: "handle list"
  switch_fails :: "handle \<Rightarrow> bool"
  script_fails :: "script \<Rightarrow> bool"
  quit_fails :: bool
  first_window :: handle

text \<open>
  What a run does is recorded as the list of its events, in order: every driver call that
  is attempted (whether or not it raises), every \<open>time.sleep\<close> and every \<open>print\<close>.
  The state of a run holds this trace, the active window and whether a browser process
  is running.
\<close>

datatype event =
    Launch | Get pystr | Sleep nat
  | Find selector | Click selector
  | CurrentHandle | WindowHandles | SwitchTo handle
  | ExecuteScript script | Quit | Print message

record state =
  active :: handle
  alive :: bool
  trace :: "event list"

datatype ret = Raised | ReturnNone | ReturnDriver

definition emit :: "event \<Rightarrow> state \<Rightarrow> state" where
  "emit e s = s\<lparr>trace := trace s @ [e]\<rparr>"

definition initial :: "browser \<Rightarrow> state" where
  "initial b = \<lparr>active = first_window b, alive = False, trace = []\<rparr>"

text \<open>
  The driver calls. Each returns whether it went through (\<open>False\<close>: it raised) and the
  new state; the two window queries return the value read, or \<open>None\<close> when they raise.
\<close>

definition launch :: "browser \<Rightarrow> state \<Rightarrow> bool \<times> state" where
  "launch b s =
     (if launch_fails b then (False, emit Launch s)
      else (True, (emit Launch s)\<lparr>alive := True\<rparr>))"

definition driver_get :: "browser \<Rightarrow> pystr \<Rightarrow> state \<Rightarrow> bool \<times> state" where
  "driver_get b url s = (\<not> get_fails b, emit (Get url) s)"

definition find_element :: "browser \<Rightarrow> selector \<Rightarrow> state \<Rightarrow> bool \<times> state" where
  "find_element b sel s = (\<not> find_fails b sel, emit (Find sel) s)"

definition click :: "browser \<Rightarrow> selector \<Rightarrow> state \<Rightarrow> bool \<times> state" where
  "click b sel s = (\<not> click_fails b sel, emit (Click sel) s)"

definition current_window_handle :: "browser \<Rightarrow> state \<Rightarrow> handle option \<times> state" where
  "current_window_handle b s =
     (if current_handle_fails b then None else Some (active s), emit CurrentHandle s)"

definition window_handles :: "browser \<Rightarrow> state \<Rightarrow> handle list option \<times> state" where
  "window_handles b s =
     (if window_handles_fails b then None else Some (opened_windows b), emit WindowHandles s)"

definition switch_to_window :: "browser \<Rightarrow> handle \<Rightarrow> state \<Rightarrow> bool \<times> state" where
  "switch_to_window b h s =
     (if switch_fails b h then (False, emit (SwitchTo h) s)
      else (True, (emit (SwitchTo h) s)\<lparr>active := h\<rparr>))"

definition execute_script :: "browser \<Rightarrow> script \<Rightarrow> state \<Rightarrow> bool \<times> state" where
  "execute_script b sc s = (\<not> script_fails b sc, emit (ExecuteScript sc) s)"

definition quit :: "browser \<Rightarrow> state \<Rightarrow> bool \<times> state" where
  "quit b s =
     (if quit_fails b then (False, emit Quit s)
      else (True, (emit Quit s)\<lparr>alive := False\<rparr>))"

definition sleep :: "nat \<Rightarrow> state \<Rightarrow> state" where
  "sleep n s = emit (Sleep n) s"

definition print :: "message \<Rightarrow> state \<Rightarrow> state" where
  "print m s = emit (Print m) s"

text \<open>
  \<open>find_element(...)\<close> followed by \<open>.click()\<close> inside one \<open>try\<close>: the click is attempted
  only when the lookup went through.
\<close>

definition find_and_click :: "browser \<Rightarrow> selector \<Rightarrow> state \<Rightarrow> bool \<times> state" where
  "find_and_click b sel s =
     (case find_element b sel s of
        (False, s1) \<Rightarrow> (False, s1)
      | (True, s1) \<Rightarrow> click b sel s1)"

text \<open>
  \<open>main.py\<close>, lines 122-175. Nothing catches a failure of the launch or of
  \<open>driver.get\<close>: the exception leaves the function.
\<close>

definition open_song_with_selenium :: "browser \<Rightarrow> pystr \<Rightarrow> ret \<times> state" where
  "open_song_with_selenium b song_url =
     (case launch b (initial b) of
        (False, s) \<Rightarrow> (Raised, s)
      | (True, s) \<Rightarrow>
     (case driver_get b song_url s of
        (False, s) \<Rightarrow> (Raised, s)
      | (True, s) \<Rightarrow>
     (case find_and_click b ShortsLink (sleep 5 s) of
        (False, s) \<Rightarrow> (ReturnDriver, print MsgShortsFailed s)
      | (True, s) \<Rightarrow>
     (case execute_script b VideoPlay (sleep 5 (print MsgShortsClicked s)) of
        (True, s) \<Rightarrow> (ReturnDriver, print MsgVideoPlayCalled s)
      | (False, s) \<Rightarrow> (ReturnDriver, print MsgVideoPlayFailed s)))))"

text \<open>
  \<open>main_etc.py\<close>, lines 183-196: the window switch. The loop stops at the first handle
  that differs from the current one (\<open>break\<close>).
\<close>

fun switch_loop :: "browser \<Rightarrow> handle \<Rightarrow> handle list \<Rightarrow> state \<Rightarrow> bool \<times> state" where
  "switch_loop b main_handle [] s = (True, s)"
| "switch_loop b main_handle (h # hs) s =
     (if h \<noteq> main_handle then
        (case switch_to_window b h s of
           (False, s1) \<Rightarrow> (False, s1)
         | (True, s1) \<Rightarrow> (True, print MsgSwitched s1))
      else switch_loop b main_handle hs s)"

definition switch_window :: "browser \<Rightarrow> state \<Rightarrow> state" where
  "switch_window b s =
     (case current_window_handle b s of
        (None, s1) \<Rightarrow> print MsgSwitchFailed s1
      | (Some main_handle, s1) \<Rightarrow>
     (case window_handles b s1 of
        (None, s2) \<Rightarrow> print MsgSwitchFailed s2
      | (Some handles, s2) \<Rightarrow>
          if length handles > 1 then
            (case switch_loop b main_handle handles s2 of
               (False, s3) \<Rightarrow> print MsgSwitchFailed s3
             | (True, s3) \<Rightarrow> s3)
          else print MsgNoNewWindow s2))"

text \<open>\<open>main_etc.py\<close>, lines 200-206: the login overlay.\<close>

definition dismiss_popup :: "browser \<Rightarrow> state \<Rightarrow> state" where
  "dismiss_popup b s =
     (case find_and_click b ClosePopup s of
        (True, s1) \<Rightarrow> print MsgPopupClosed s1
      | (False, s1) \<Rightarrow> print MsgPopupNotFound s1)"

text \<open>\<open>main_etc.py\<close>, lines 210-220: the play button, and the script call when it fails.\<close>

definition engage_playback :: "browser \<Rightarrow> state \<Rightarrow> state" where
  "engage_playback b s =
     (case find_and_click b PlayBtn s of
        (True, s1) \<Rightarrow> print MsgPlayClicked s1
      | (False, s1) \<Rightarrow>
          (case execute_script b AudioPlay s1 of
             (True, s2) \<Rightarrow> print MsgAudioPlayCalled s2
           | (False, s2) \<Rightarrow> print MsgPlayAllFailed s2))"

text \<open>
  \<open>driver.quit()\<close> followed by \<open>return None\<close> inside an \<open>except\<close> block: when
  \<open>quit\<close> itself raises, the exception leaves the function.
\<close>

definition quit_and_return_None :: "browser \<Rightarrow> state \<Rightarrow> ret \<times> state" where
  "quit_and_return_None b s =
     (case quit b s of
        (True, s1) \<Rightarrow> (ReturnNone, s1)
      | (False, s1) \<Rightarrow> (Raised, s1))"

text \<open>\<open>main_etc.py\<close>, lines 126-222.\<close>

definition open_song_with_selenium_etc :: "browser \<Rightarrow> pystr \<Rightarrow> ret \<times> state" where
  "open_song_with_selenium_etc b song_url =
     (case launch b (initial b) of
        (False, s) \<Rightarrow> (ReturnNone, print MsgDriverFailed s)
      | (True, s) \<Rightarrow>
     (case driver_get b song_url (print MsgDriverStarted s) of
        (False, s) \<Rightarrow> quit_and_return_None b (print MsgPageFailed s)
      | (True, s) \<Rightarrow>
     (case find_and_click b FirstPlay (sleep 5 (print (MsgPageOpened song_url) s)) of
        (False, s) \<Rightarrow> quit_and_return_None b (print MsgFirstPlayFailed s)
      | (True, s) \<Rightarrow>
          (let s = sleep 3 (print MsgFirstPlayClicked s);
               s = sleep 4 (print MsgPlayerSelectSkipped s);
               s = sleep 4 (switch_window b s);
               s = sleep 2 (dismiss_popup b s);
               s = engage_playback b s
           in (ReturnDriver, s)))))"

text \<open>
  The steps of the navigation sequence, as the specification numbers them: 1 opens the
  URL, 2 clicks the first result, 3 switches the window, 4 dismisses the overlay, 5
  engages playback (the script call is its fallback). \<open>step_of\<close> gives the step a driver
  call belongs to, and 0 for the launch, the teardown, the waits and the prints.
\<close>

fun step_of :: "event \<Rightarrow> nat" where
  "step_of (Get url) = 1"
| "step_of (Find ShortsLink) = 2"
| "step_of (Find FirstPlay) = 2"
| "step_of (Click ShortsLink) = 2"
| "step_of (Click FirstPlay) = 2"
| "step_of CurrentHandle = 3"
| "step_of WindowHandles = 3"
| "step_of (SwitchTo h) = 3"
| "step_of (Find ClosePopup) = 4"
| "step_of (Click ClosePopup) = 4"
| "step_of (Find PlayBtn) = 5"
| "step_of (Click PlayBtn) = 5"
| "step_of (ExecuteScript sc) = 5"
| "step_of e = 0"

definition steps_run :: "state \<Rightarrow> nat list" where
  "steps_run s = remdups_adj (filter (\<lambda>k. k \<noteq> 0) (map step_of (trace s)))"

definition script_calls :: "state \<Rightarrow> nat" where
  "script_calls s = length (filter (\<lambda>e. case e of ExecuteScript sc \<Rightarrow> True | _ \<Rightarrow> False) (trace s))"

definition torn_down :: "state \<Rightarrow> bool" where
  "torn_down s = (Quit \<in> set (trace s))"

text \<open>
  The events each of the three tolerant steps adds to the trace, and the window that is
  active after the window switch, written out case by case. The lemmas below show that
  the step functions above produce exactly these.
\<close>

definition switch_events :: "browser \<Rightarrow> handle \<Rightarrow> event list" where
  "switch_events b m =
     (if current_handle_fails b then [CurrentHandle, Print MsgSwitchFailed]
      else if window_handles_fails b then [CurrentHandle, WindowHandles, Print MsgSwitchFailed]
      else if length (opened_windows b) > 1 then
        (case List.find (\<lambda>h. h \<noteq> m) (opened_windows b) of
           None \<Rightarrow> [CurrentHandle, WindowHandles]
         | Some h \<Rightarrow>
             if switch_fails b h
             then [CurrentHandle, WindowHandles, SwitchTo h, Print MsgSwitchFailed]
             else [CurrentHandle, WindowHandles, SwitchTo h, Print MsgSwitched])
      else [CurrentHandle, WindowHandles, Print MsgNoNewWindow])"

definition switch_target :: "browser \<Rightarrow> handle \<Rightarrow> handle" where
  "switch_target b m =
     (if current_handle_fails b \<or> window_handles_fails b \<or> length (opened_windows b) \<le> 1
      then m
      else case List.find (\<lambda>h. h \<noteq> m) (opened_windows b) of
             None \<Rightarrow> m
           | Some h \<Rightarrow> if switch_fails b h then m else h)"

definition popup_events :: "browser \<Rightarrow> event list" where
  "popup_events b =
     (if find_fails b ClosePopup then [Find ClosePopup, Print MsgPopupNotFound]
      else if click_fails b ClosePopup
      then [Find ClosePopup, Click ClosePopup, Print MsgPopupNotFound]
      else [Find ClosePopup, Click ClosePopup, Print MsgPopupClosed])"

definition playback_events :: "browser \<Rightarrow> event list" where
  "playback_events b =
     (if find_fails b PlayBtn then [Find PlayBtn] else [Find PlayBtn, Click PlayBtn])
     @ (if find_fails b PlayBtn \<or> click_fails b PlayBtn
        then [ExecuteScript AudioPlay,
              Print (if script_fails b AudioPlay then MsgPlayAllFailed else MsgAudioPlayCalled)]
        else [Print MsgPlayClicked])"

text \<open>
  A simulated session in which every call goes through, with three windows open when the
  window switch is reached; the examples below change single fields of it.
\<close>

definition sim :: browser where
  "sim = \<lparr>launch_fails = False, get_fails = False, find_fails = (\<lambda>sel. False),
          click_fails = (\<lambda>sel. False), current_handle_fails = False,
          window_handles_fails = False, opened_windows = [''w0'', ''w1'', ''w2''],
          switch_fails = (\<lambda>h. False), script_fails = (\<lambda>sc. False), quit_fails = False,
          first_window = ''w0''\<rparr>"

section \<open>UTF-8 and percent-encoding round trips\<close>

lemma split2: "(c::nat) div 64 * 64 + c mod 64 = c"
  by simp

lemma split3: "(c::nat) div 4096 * 4096 + c div 64 mod 64 * 64 + c mod 64 = c"
proof -
  define q where "q = c div 64"
  have a: "c div 4096 = q div 64" by (simp add: q_def div_mult2_eq)
  have "q div 64 * 4096 + q mod 64 * 64 = (q div 64 * 64 + q mod 64) * 64"
    by (simp only: distrib_right mult.assoc)
  also have "\<dots> = q * 64" by simp
  finally have "c div 4096 * 4096 + c div 64 mod 64 * 64 = c div 64 * 64"
    by (simp only: a q_def)
  then show ?thesis by simp
qed

lemma split4:
  "(c::nat) div 262144 * 262144 + c div 4096 mod 64 * 4096 + c div 64 mod 64 * 64 + c mod 64 = c"
proof -
  define q where "q = c div 4096"
  have a: "c div 262144 = q div 64" by (simp add: q_def div_mult2_eq)
  have "q div 64 * 262144 + q mod 64 * 4096 = (q div 64 * 64 + q mod 64) * 4096"
    by (simp only: distrib_right mult.assoc)
  also have "\<dots> = q * 4096" by simp
  finally have "c div 262144 * 262144 + c div 4096 mod 64 * 4096 = c div 4096 * 4096"
    by (simp only: a q_def)
  then show ?thesis using split3 [of c] by simp
qed

lemma cont_mod: "cont (128 + n mod 64)"
  unfolding cont_def
proof -
  have "n mod 64 < 64" by simp
  then show "128 \<le> 128 + n mod 64 \<and> 128 + n mod 64 < 192" by linarith
qed

lemma decode_2:
  assumes "128 \<le> c" "c < 2048"
  shows "decode ([192 + c div 64, 128 + c mod 64] @ rest)
         = (case decode rest of Some cs \<Rightarrow> Some (c # cs) | None \<Rightarrow> None)"
proof -
  have d: "c div 64 < 32" using assms by simp
  have v: "(192 + c div 64 - 192) * 64 + (128 + c mod 64 - 128) = c"
    using split2 [of c] by simp
  have r: "\<not> 192 + c div 64 < 128" "192 \<le> 192 + c div 64" "192 + c div 64 < 224"
    using d by simp_all
  show ?thesis
    using assms by (simp only: append_Cons append_Nil decode.simps r v Let_def cont_mod list.case if_True if_False simp_thms)
qed

lemma decode_3:
  assumes "2048 \<le> c" "c < 65536" "\<not> (55296 \<le> c \<and> c < 57344)"
  shows "decode ([224 + c div 4096, 128 + c div 64 mod 64, 128 + c mod 64] @ rest)
         = (case decode rest of Some cs \<Rightarrow> Some (c # cs) | None \<Rightarrow> None)"
proof -
  have d: "c div 4096 < 16" using assms by simp
  have v: "(224 + c div 4096 - 224) * 4096 + (128 + c div 64 mod 64 - 128) * 64
           + (128 + c mod 64 - 128) = c"
    using split3 [of c] by simp
  have r: "\<not> 224 + c div 4096 < 128" "\<not> (192 \<le> 224 + c div 4096 \<and> 224 + c div 4096 < 224)"
    "224 \<le> 224 + c div 4096" "224 + c div 4096 < 240"
    using d by simp_all
  show ?thesis
    using assms by (simp only: append_Cons append_Nil decode.simps r v Let_def cont_mod list.case if_True if_False simp_thms)
qed

lemma decode_4:
  assumes "65536 \<le> c" "c < 1114112"
  shows "decode ([240 + c div 262144, 128 + c div 4096 mod 64, 128 + c div 64 mod 64,
                  128 + c mod 64] @ rest)
         = (case decode rest of Some cs \<Rightarrow> Some (c # cs) | None \<Rightarrow> None)"
proof -
  have d: "c div 262144 < 8" using assms by simp
  have v: "(240 + c div 262144 - 240) * 262144 + (128 + c div 4096 mod 64 - 128) * 4096
           + (128 + c div 64 mod 64 - 128) * 64 + (128 + c mod 64 - 128) = c"
    using split4 [of c] by simp
  have r: "\<not> 240 + c div 262144 < 128"
    "\<not> (192 \<le> 240 + c div 262144 \<and> 240 + c div 262144 < 224)"
    "\<not> (224 \<le> 240 + c div 262144 \<and> 240 + c div 262144 < 240)"
    "240 \<le> 240 + c div 262144" "240 + c div 262144 < 248"
    using d by simp_all
  show ?thesis
    using assms by (simp only: append_Cons append_Nil decode.simps r v Let_def cont_mod list.case if_True if_False simp_thms)
qed

lemma utf8_char_decode:
  assumes "utf8_char c = Some bs"
  shows "decode (bs @ rest) = (case decode rest of Some cs \<Rightarrow> Some (c # cs) | None \<Rightarrow> None)"
proof -
  consider (a) "c < 128" | (b) "128 \<le> c" "c < 2048"
    | (s) "55296 \<le> c" "c < 57344"
    | (c) "2048 \<le> c" "c < 65536" "\<not> (55296 \<le> c \<and> c < 57344)"
    | (d) "65536 \<le> c" "c < 1114112" | (e) "1114112 \<le> c"
    by linarith
  then show ?thesis
  proof cases
    case a
    with assms have "bs = [c]" by (simp add: utf8_char_def)
    with a show ?thesis by simp
  next
    case b
    with assms have "bs = [192 + c div 64, 128 + c mod 64]" by (simp add: utf8_char_def)
    then show ?thesis using decode_2 [OF b, of rest] by simp
  next
    case s
    with assms show ?thesis by (simp add: utf8_char_def)
  next
    case c
    with assms have "bs = [224 + c div 4096, 128 + c div 64 mod 64, 128 + c mod 64]"
      by (simp add: utf8_char_def)
    then show ?thesis using decode_3 [OF c, of rest] by simp
  next
    case d
    with assms have "bs = [240 + c div 262144, 128 + c div 4096 mod 64, 128 + c div 64 mod 64,
                  128 + c mod 64]"
      by (simp add: utf8_char_def)
    then show ?thesis using decode_4 [OF d, of rest] by simp
  next
    case e
    with assms show ?thesis by (simp add: utf8_char_def)
  qed
qed

lemma encode_decode: "encode s = Some bs \<Longrightarrow> decode bs = Some s"
proof (induction s arbitrary: bs)
  case Nil
  then show ?case by simp
next
  case (Cons c cs)
  then obtain b r where b: "utf8_char c = Some b" and r: "encode cs = Some r" and bs: "bs = b @ r"
    by (auto split: option.splits)
  from Cons.IH [OF r] have "decode r = Some cs" .
  with utf8_char_decode [OF b, of r] bs show ?case by simp
qed

lemma utf8_char_bytes: "utf8_char c = Some bs \<Longrightarrow> b \<in> set bs \<Longrightarrow> b < 256"
  unfolding utf8_char_def
  by (auto split: if_splits)

lemma unhex_hexdigit: "d < 16 \<Longrightarrow> unhex (hexdigit d) = Some d"
  by (simp add: unhex_def hexdigit_def)

lemma hexdigit_not_plus: "hexdigit d \<noteq> 43"
  by (simp add: hexdigit_def)

lemma ALWAYS_SAFE_ascii: "b \<in> set ALWAYS_SAFE \<Longrightarrow> b < 128 \<and> b \<noteq> 37 \<and> b \<noteq> 43 \<and> b \<noteq> 32"
proof -
  assume "b \<in> set ALWAYS_SAFE"
  then have "list_ex (\<lambda>x. x = b) ALWAYS_SAFE" by (simp add: list_ex_iff)
  moreover have "list_all (\<lambda>x. x < 128 \<and> x \<noteq> 37 \<and> x \<noteq> 43 \<and> x \<noteq> 32) ALWAYS_SAFE"
    by (simp add: ALWAYS_SAFE_def str_def)
  ultimately show ?thesis by (auto simp: list_all_iff list_ex_iff)
qed

lemma quoter_decode:
  assumes "b < 256" and "\<forall>x\<in>set safe. x < 128 \<and> x \<noteq> 37"
  shows "percent_decode (quoter safe b @ rest)
         = (case percent_decode rest of Some bs \<Rightarrow> Some (b # bs) | None \<Rightarrow> None)"
proof (cases "b \<in> set ALWAYS_SAFE \<or> b \<in> set safe")
  case True
  then have "b < 128 \<and> b \<noteq> 37" using assms(2) ALWAYS_SAFE_ascii by blast
  moreover have "quoter safe b = [b]" using True by (simp add: quoter_def)
  ultimately show ?thesis by simp
next
  case False
  then have q: "quoter safe b = [37, hexdigit (b div 16), hexdigit (b mod 16)]"
    by (simp add: quoter_def)
  have h: "unhex (hexdigit (b div 16)) = Some (b div 16)"
    using assms(1) by (intro unhex_hexdigit) simp
  have l: "unhex (hexdigit (b mod 16)) = Some (b mod 16)"
    by (intro unhex_hexdigit) simp
  have v: "16 * (b div 16) + b mod 16 = b" by simp
  show ?thesis
    by (simp add: q h l v split: option.splits)
qed

lemma quote_from_bytes_decode:
  assumes "\<forall>x\<in>set safe. x < 128 \<and> x \<noteq> 37"
  shows "\<forall>b\<in>set bs. b < 256 \<Longrightarrow> percent_decode (quote_from_bytes bs safe) = Some bs"
proof (induction bs)
  case Nil
  then show ?case by (simp add: quote_from_bytes_def)
next
  case (Cons b bs)
  then have "b < 256" and ih: "percent_decode (quote_from_bytes bs safe) = Some bs" by simp_all
  have "quote_from_bytes (b # bs) safe = quoter safe b @ quote_from_bytes bs safe"
    by (simp add: quote_from_bytes_def)
  then show ?case using quoter_decode [OF \<open>b < 256\<close> assms] ih by simp
qed

lemma quote_from_bytes_no_plus:
  "43 \<notin> set safe \<Longrightarrow> 43 \<notin> set (quote_from_bytes bs safe)"
proof (induction bs)
  case Nil
  then show ?case by (simp add: quote_from_bytes_def)
next
  case (Cons b bs)
  have "43 \<notin> set (quoter safe b)"
    using Cons.prems ALWAYS_SAFE_ascii [of b] hexdigit_not_plus
    by (auto simp: quoter_def)
  with Cons show ?case by (simp add: quote_from_bytes_def)
qed

lemma replace_absent: "old \<notin> set s \<Longrightarrow> replace old new s = s"
  by (induction s) (simp_all add: replace_def)

lemma replace_back: "new \<notin> set s \<Longrightarrow> replace new old (replace old new s) = s"
  by (induction s) (simp_all add: replace_def)

lemma encode_bytes: "encode s = Some bs \<Longrightarrow> \<forall>b\<in>set bs. b < 256"
proof (induction s arbitrary: bs)
  case Nil
  then show ?case by simp
next
  case (Cons c cs)
  then obtain b r where b: "utf8_char c = Some b" and r: "encode cs = Some r" and bs: "bs = b @ r"
    by (auto split: option.splits)
  show ?case using Cons.IH [OF r] utf8_char_bytes [OF b] bs by auto
qed

lemma utf8_char_scalar: "(utf8_char c = None) = (\<not> is_scalar c)"
  unfolding utf8_char_def is_scalar_def by (simp; linarith)

lemma encode_wf: "(encode s = None) = (\<not> wf_text s)"
proof (induction s)
  case Nil
  then show ?case by (simp add: wf_text_def)
next
  case (Cons c cs)
  show ?case
  proof (cases "utf8_char c")
    case None
    then show ?thesis using utf8_char_scalar [of c] by (simp add: wf_text_def)
  next
    case (Some b)
    then have "is_scalar c" using utf8_char_scalar [of c] by auto
    then show ?thesis using Some Cons.IH by (cases "encode cs") (simp_all add: wf_text_def)
  qed
qed

lemma quote_plus_wf: "(\<exists>q. quote_plus s = Inr q) = wf_text s"
proof (cases "s = []")
  case True
  then show ?thesis by (simp add: quote_plus_def quote_def wf_text_def)
next
  case False
  then show ?thesis using encode_wf [of s]
    by (auto simp: quote_plus_def quote_def split: option.splits)
qed

lemma quote_plus_raises: "(quote_plus s = Inl UnicodeEncodeError) = (\<not> wf_text s)"
proof (cases "quote_plus s")
  case (Inl e)
  then show ?thesis using quote_plus_wf [of s] by (cases e) auto
next
  case (Inr q)
  then show ?thesis using quote_plus_wf [of s] by auto
qed

lemma quote_unquote:
  assumes "quote s safe = Inr q" and "\<forall>x\<in>set safe. x < 128 \<and> x \<noteq> 37"
  shows "unquote q = Some s"
proof (cases "s = []")
  case True
  with assms show ?thesis by (simp add: quote_def unquote_def)
next
  case False
  with assms(1) obtain bs where e: "encode s = Some bs" and q: "q = quote_from_bytes bs safe"
    by (auto simp: quote_def split: option.splits)
  have "percent_decode q = Some bs"
    unfolding q using assms(2) encode_bytes [OF e] by (rule quote_from_bytes_decode)
  then show ?thesis using encode_decode [OF e] by (simp add: unquote_def)
qed

lemma quote_no_plus: "quote s safe = Inr q \<Longrightarrow> 43 \<notin> set s \<or> s \<noteq> [] \<Longrightarrow> 43 \<notin> set safe \<Longrightarrow> 43 \<notin> set q"
  using quote_from_bytes_no_plus [of safe]
  by (auto simp: quote_def split: if_splits option.splits)

lemma quote_plus_unquote_plus:
  assumes "quote_plus s = Inr q"
  shows "unquote_plus q = Some s"
proof (cases "32 \<in> set s")
  case False
  with assms have q: "quote s [] = Inr q" by (simp add: quote_plus_def)
  have "43 \<notin> set q"
  proof (cases "s = []")
    case True
    with q show ?thesis by (simp add: quote_def)
  next
    case False
    then show ?thesis using quote_no_plus [OF q] by simp
  qed
  then have "replace 43 32 q = q" by (rule replace_absent)
  then show ?thesis using quote_unquote [OF q] by (simp add: unquote_plus_def)
next
  case True
  with assms obtain p where p: "quote s [32] = Inr p" and q: "q = replace 32 43 p"
    by (auto simp: quote_plus_def split: sum.splits)
  from True have "s \<noteq> []" by auto
  then have "43 \<notin> set p" using quote_no_plus [OF p] by simp
  then have "replace 43 32 q = p" unfolding q by (rule replace_back)
  then show ?thesis using quote_unquote [OF p] by (simp add: unquote_plus_def)
qed

lemma query_value_youtube: "query_value (youtube_search @ q) = q"
  by (simp add: query_value_def youtube_search_def str_def)

lemma query_value_bugs: "query_value (bugs_search @ q) = q"
  by (simp add: query_value_def bugs_search_def str_def)

section \<open>The Query Builder\<close>

lemma prr_nonempty:
  "T \<noteq> [] \<Longrightarrow> quote_plus T = Inr q \<Longrightarrow>
   process_recognition_result T
     = Inr [(''song_url'', youtube_search @ q), (''song_title'', title_rule T)]"
  by (simp add: process_recognition_result_def title_rule_def Let_def)

lemma prr_etc_nonempty:
  "T \<noteq> [] \<Longrightarrow> quote_plus T = Inr q \<Longrightarrow>
   process_recognition_result_etc T out
     = (Inr [(''song_url'', bugs_search @ q), (''song_title'', title_rule T)],
        out @ [MsgCreatedUrl (bugs_search @ q)])"
  by (simp add: process_recognition_result_etc_def title_rule_def Let_def)

lemma prr_raises:
  "T \<noteq> [] \<Longrightarrow> quote_plus T = Inl e \<Longrightarrow> process_recognition_result T = Inl e"
  by (simp add: process_recognition_result_def)

lemma prr_etc_raises:
  "T \<noteq> [] \<Longrightarrow> quote_plus T = Inl e \<Longrightarrow> process_recognition_result_etc T out = (Inl e, out)"
  by (simp add: process_recognition_result_etc_def)

lemma prr_empty: "process_recognition_result [] = Inr [(''error'', no_lyrics_message)]"
  by (simp add: process_recognition_result_def)

lemma prr_etc_empty:
  "process_recognition_result_etc [] out = (Inr [(''error'', no_lyrics_message)], out @ [MsgNoText])"
  by (simp add: process_recognition_result_etc_def)

text \<open>
  Claim C4. For a non-empty transcript of well-formed text, both builders return a
  dictionary whose \<open>song_title\<close> is the transcript itself when it has at most 50
  characters, and otherwise its first 50 characters followed by \<open>...\<close>; nothing is
  trimmed or case-folded. (A string holding a lone surrogate is not text: \<open>quote_plus\<close>
  raises on it before the title is built.)
\<close>

theorem song_title_rule:
  assumes "T \<noteq> []" and "wf_text T"
  shows "(\<exists>u. process_recognition_result T
                = Inr [(''song_url'', u), (''song_title'', title_rule T)])
       \<and> (\<exists>u. fst (process_recognition_result_etc T out)
                = Inr [(''song_url'', u), (''song_title'', title_rule T)])"
proof -
  from assms(2) obtain q where q: "quote_plus T = Inr q"
    using quote_plus_wf [of T] by auto
  show ?thesis
    using prr_nonempty [OF assms(1) q] prr_etc_nonempty [OF assms(1) q, of out] by simp
qed

theorem song_title_rule_witness:
  "(\<exists>u. process_recognition_result (replicate 60 97)
                = Inr [(''song_url'', u), (''song_title'', replicate 50 97 @ [46, 46, 46])])
   \<and> (\<exists>u. fst (process_recognition_result_etc (replicate 60 97) [])
                = Inr [(''song_url'', u), (''song_title'', replicate 50 97 @ [46, 46, 46])])"
proof -
  have n: "replicate 60 (97::nat) \<noteq> []" by simp
  have w: "wf_text (replicate 60 97)" by (simp add: wf_text_def list_all_iff is_scalar_def)
  have t: "title_rule (replicate 60 97) = replicate 50 97 @ [46, 46, 46]"
    by (simp add: title_rule_def str_def)
  show ?thesis using song_title_rule [OF n w, of "[]"] unfolding t .
qed

text \<open>
  Claim C8. Both builders return the dictionary that holds only the \<open>error\<close> message
  exactly when the transcript is empty, and that dictionary has no \<open>song_url\<close> entry.
\<close>

theorem no_transcript:
  "(process_recognition_result T = Inr [(''error'', no_lyrics_message)]) = (T = [])
   \<and> (fst (process_recognition_result_etc T out) = Inr [(''error'', no_lyrics_message)]) = (T = [])
   \<and> map_of [(''error'', no_lyrics_message)] ''song_url'' = None"
proof (cases "T = []")
  case True
  then show ?thesis by (simp add: prr_empty prr_etc_empty)
next
  case False
  show ?thesis
  proof (cases "quote_plus T")
    case (Inl e)
    then show ?thesis using False prr_raises [OF False Inl] prr_etc_raises [OF False Inl, of out]
      by simp
  next
    case (Inr q)
    then show ?thesis using False prr_nonempty [OF False Inr] prr_etc_nonempty [OF False Inr, of out]
      by simp
  qed
qed

theorem no_transcript_witness:
  "process_recognition_result [] = Inr [(''error'', no_lyrics_message)]
   \<and> process_recognition_result [97] \<noteq> Inr [(''error'', no_lyrics_message)]"
  using no_transcript [of "[]" "[]"] no_transcript [of "[97]" "[]"] by simp

text \<open>
  Claim C10. The returned dictionary has exactly the key \<open>error\<close> when the input is empty,
  and exactly the keys \<open>song_url\<close> and \<open>song_title\<close> when it is not; a dictionary is
  returned for every well-formed text. So a caller that has checked the transcript to be
  non-empty never finds \<open>error\<close> among the keys.
\<close>

theorem result_keys:
  "(T = [] \<longrightarrow> (\<exists>d. process_recognition_result T = Inr d \<and> keys d = [''error'']))
   \<and> (T \<noteq> [] \<longrightarrow> (\<forall>d. process_recognition_result T = Inr d
                        \<longrightarrow> keys d = [''song_url'', ''song_title'']))
   \<and> (T \<noteq> [] \<and> wf_text T \<longrightarrow> (\<exists>d. process_recognition_result T = Inr d))
   \<and> (T = [] \<longrightarrow> (\<exists>d. fst (process_recognition_result_etc T out) = Inr d \<and> keys d = [''error'']))
   \<and> (T \<noteq> [] \<longrightarrow> (\<forall>d. fst (process_recognition_result_etc T out) = Inr d
                        \<longrightarrow> keys d = [''song_url'', ''song_title'']))
   \<and> (T \<noteq> [] \<and> wf_text T \<longrightarrow> (\<exists>d. fst (process_recognition_result_etc T out) = Inr d))"
proof (cases "T = []")
  case True
  then show ?thesis by (simp add: prr_empty prr_etc_empty keys_def)
next
  case False
  show ?thesis
  proof (cases "quote_plus T")
    case (Inl e)
    then have "\<not> wf_text T" using quote_plus_wf [of T] by auto
    then show ?thesis using False prr_raises [OF False Inl] prr_etc_raises [OF False Inl, of out]
      by simp
  next
    case (Inr q)
    then show ?thesis using False prr_nonempty [OF False Inr] prr_etc_nonempty [OF False Inr, of out]
      by (simp add: keys_def)
  qed
qed

theorem result_keys_witness:
  "(\<exists>d. process_recognition_result [] = Inr d \<and> keys d = [''error''])
   \<and> (\<exists>d. process_recognition_result [50504, 45397] = Inr d
           \<and> keys d = [''song_url'', ''song_title''] \<and> ''error'' \<notin> set (keys d))"
proof -
  have w: "wf_text [50504, 45397]" by (simp add: wf_text_def is_scalar_def)
  have n: "[50504, 45397] \<noteq> ([]::nat list)" by simp
  from result_keys [of "[50504, 45397]" "[]"] w n
  obtain d where d: "process_recognition_result [50504, 45397] = Inr d"
    and k: "keys d = [''song_url'', ''song_title'']"
    by blast
  from k have "''error'' \<notin> set (keys d)" by simp
  with d k show ?thesis using result_keys [of "[]" "[]"] by blast
qed

section \<open>\<open>quote_plus\<close> against percent-encoding\<close>

lemma unreserved_safe: "unreserved b = (b \<in> set ALWAYS_SAFE)"
proof
  assume "b \<in> set ALWAYS_SAFE"
  then have "list_ex (\<lambda>x. x = b) ALWAYS_SAFE" by (simp add: list_ex_iff)
  moreover have "list_all unreserved ALWAYS_SAFE"
    by (simp add: ALWAYS_SAFE_def str_def unreserved_def)
  ultimately show "unreserved b" by (auto simp: list_all_iff list_ex_iff)
next
  assume u: "unreserved b"
  then have "b < 127" by (auto simp: unreserved_def)
  moreover have "list_all (\<lambda>x. unreserved x \<longrightarrow> x \<in> set ALWAYS_SAFE) [0..<127]"
    by code_simp
  ultimately show "b \<in> set ALWAYS_SAFE" using u by (simp add: list_all_iff)
qed

lemma quoter_empty: "quoter [] b = pct_byte b"
  by (simp add: quoter_def pct_byte_def unreserved_safe)

lemma quoter_space: "quoter [32] b = (if b = 32 then [32] else pct_byte b)"
  using ALWAYS_SAFE_ascii [of 32]
  by (auto simp: quoter_def pct_byte_def unreserved_safe)

lemma hexdigit_range: "32 < hexdigit d \<and> hexdigit d \<noteq> 37"
  by (simp add: hexdigit_def)

lemma pct_byte_no_space: "b \<noteq> 32 \<Longrightarrow> 32 \<notin> set (pct_byte b)"
  using hexdigit_range [of "b div 16"] hexdigit_range [of "b mod 16"]
  by (auto simp: pct_byte_def)

lemma replace_quoter_space:
  "replace 32 43 (quoter [32] b) = (if b = 32 then [43] else pct_byte b)"
  using pct_byte_no_space [of b]
  by (simp add: quoter_space replace_absent) (simp add: replace_def)

lemma replace_append: "replace a b (xs @ ys) = replace a b xs @ replace a b ys"
  by (simp add: replace_def)

lemma replace_quote_from_bytes:
  "replace 32 43 (quote_from_bytes bs [32])
   = concat (map (\<lambda>b. if b = 32 then [43] else pct_byte b) bs)"
proof (induction bs)
  case Nil
  then show ?case by (simp add: quote_from_bytes_def replace_def)
next
  case (Cons b bs)
  have "quote_from_bytes (b # bs) [32] = quoter [32] b @ quote_from_bytes bs [32]"
    by (simp add: quote_from_bytes_def)
  then show ?case using Cons.IH replace_quoter_space [of b] by (simp add: replace_append)
qed

lemma plus_for_space_keep: "a \<noteq> 37 \<Longrightarrow> plus_for_space (a # rest) = a # plus_for_space rest"
proof (cases rest)
  case Nil
  then show ?thesis by simp
next
  case (Cons x xs)
  assume "a \<noteq> 37"
  with Cons show ?thesis by (cases xs) simp_all
qed

lemma hexdigit_20:
  assumes "b < 256"
  shows "(hexdigit (b div 16) = 50 \<and> hexdigit (b mod 16) = 48) = (b = 32)"
proof
  assume h: "hexdigit (b div 16) = 50 \<and> hexdigit (b mod 16) = 48"
  then have "b div 16 = 2" and "b mod 16 = 0"
    by (auto simp: hexdigit_def split: if_splits)
  then show "b = 32" using div_mult_mod_eq [of b 16] by simp
next
  assume "b = 32"
  then show "hexdigit (b div 16) = 50 \<and> hexdigit (b mod 16) = 48"
    by (simp add: hexdigit_def)
qed

lemma unreserved_plain: "unreserved b \<Longrightarrow> b \<noteq> 37 \<and> b \<noteq> 32"
  by (auto simp: unreserved_def)

lemma plus_for_space_byte:
  assumes "b < 256"
  shows "plus_for_space (pct_byte b @ rest)
         = (if b = 32 then [43] else pct_byte b) @ plus_for_space rest"
proof (cases "unreserved b")
  case True
  then show ?thesis using unreserved_plain [OF True]
    by (simp add: pct_byte_def plus_for_space_keep)
next
  case False
  have k: "plus_for_space (hexdigit (b div 16) # hexdigit (b mod 16) # rest)
           = hexdigit (b div 16) # hexdigit (b mod 16) # plus_for_space rest"
    using hexdigit_range [of "b div 16"] hexdigit_range [of "b mod 16"]
    by (simp add: plus_for_space_keep)
  show ?thesis using False hexdigit_20 [OF assms] k
    by (auto simp: pct_byte_def)
qed

lemma plus_for_space_bytes:
  "\<forall>b\<in>set bs. b < 256 \<Longrightarrow>
   plus_for_space (concat (map pct_byte bs))
   = concat (map (\<lambda>b. if b = 32 then [43] else pct_byte b) bs)"
proof (induction bs)
  case Nil
  then show ?case by simp
next
  case (Cons b bs)
  then have "b < 256" by simp
  from plus_for_space_byte [OF this, of "concat (map pct_byte bs)"] Cons show ?case by simp
qed

lemma utf8_char_space: "utf8_char c = Some bs \<Longrightarrow> 32 \<in> set bs \<Longrightarrow> c = 32"
  unfolding utf8_char_def by (auto split: if_splits)

lemma encode_space: "encode s = Some bs \<Longrightarrow> 32 \<in> set bs \<Longrightarrow> 32 \<in> set s"
proof (induction s arbitrary: bs)
  case Nil
  then show ?case by simp
next
  case (Cons c cs)
  then obtain b r where b: "utf8_char c = Some b" and r: "encode cs = Some r" and bs: "bs = b @ r"
    by (auto split: option.splits)
  show ?case using Cons.IH [OF r] utf8_char_space [OF b] Cons.prems(2) bs by auto
qed

lemma quote_plus_percent_encode:
  assumes "s \<noteq> []" and "quote_plus s = Inr q"
  shows "\<exists>p. percent_encode s = Some p \<and> q = plus_for_space p \<and> (32 \<notin> set s \<longrightarrow> q = p)"
proof -
  from assms obtain bs where e: "encode s = Some bs"
    by (cases "encode s") (auto simp: quote_plus_def quote_def split: if_splits)
  let ?p = "concat (map pct_byte bs)"
  have p: "percent_encode s = Some ?p" by (simp add: percent_encode_def e)
  have pf: "plus_for_space ?p = concat (map (\<lambda>b. if b = 32 then [43] else pct_byte b) bs)"
    using encode_bytes [OF e] by (rule plus_for_space_bytes)
  have ns: "32 \<notin> set s \<Longrightarrow> q = ?p"
    using assms e by (simp add: quote_plus_def quote_def quote_from_bytes_def quoter_empty [abs_def])
  show ?thesis
  proof (cases "32 \<in> set s")
    case True
    then have "q = replace 32 43 (quote_from_bytes bs [32])"
      using assms e by (simp add: quote_plus_def quote_def)
    then show ?thesis using p pf True by (simp add: replace_quote_from_bytes)
  next
    case False
    then have "32 \<notin> set bs" using encode_space [OF e] by blast
    then have "concat (map (\<lambda>b. if b = 32 then [43] else pct_byte b) bs) = ?p"
      by (induction bs) simp_all
    then show ?thesis using p pf ns [OF False] by simp
  qed
qed

lemma endpoint_A: "youtube_search
                   = str ''https://www.youtube.com/results'' @ str ''?'' @ str ''search_query'' @ str ''=''"
  by (simp add: youtube_search_def str_def)

lemma endpoint_B: "bugs_search
                   = str ''https://music.bugs.co.kr/search/lyrics'' @ str ''?'' @ str ''q'' @ str ''=''"
  by (simp add: bugs_search_def str_def)

lemma quote_plus_a_b: "quote_plus (str ''a b'') = Inr (str ''a+b'')"
  by (simp add: quote_plus_def quote_def str_def utf8_char_def quote_from_bytes_def
      quoter_def replace_def ALWAYS_SAFE_def)

text \<open>
  Claim C7, as amended. For a non-empty transcript of well-formed text the URL is the
  endpoint, \<open>?\<close>, the parameter name, \<open>=\<close>, and then the percent-encoding of the
  transcript in which every escaped space \<open>%20\<close> is written \<open>+\<close> (what \<open>quote_plus\<close>
  produces); for a transcript without a space that is the percent-encoding itself. For
  the transcript U+C548 U+B155 the first builder gives the query
  \<open>search_query=%EC%95%88%EB%85%95\<close> and the title is the transcript.
\<close>

theorem search_url_rule:
  assumes "T \<noteq> []" and "wf_text T"
  shows "\<exists>p. percent_encode T = Some p
          \<and> process_recognition_result T
              = Inr [(''song_url'', str ''https://www.youtube.com/results'' @ str ''?''
                                     @ str ''search_query'' @ str ''='' @ plus_for_space p),
                     (''song_title'', title_rule T)]
          \<and> fst (process_recognition_result_etc T out)
              = Inr [(''song_url'', str ''https://music.bugs.co.kr/search/lyrics'' @ str ''?''
                                     @ str ''q'' @ str ''='' @ plus_for_space p),
                     (''song_title'', title_rule T)]
          \<and> (32 \<notin> set T \<longrightarrow> plus_for_space p = p)"
proof -
  from assms(2) obtain q where q: "quote_plus T = Inr q"
    using quote_plus_wf [of T] by auto
  from quote_plus_percent_encode [OF assms(1) q] obtain p
    where p: "percent_encode T = Some p" "q = plus_for_space p" "32 \<notin> set T \<longrightarrow> q = p"
    by blast
  show ?thesis
    using prr_nonempty [OF assms(1) q] prr_etc_nonempty [OF assms(1) q, of out] p
    by (simp add: endpoint_A endpoint_B)
qed

theorem search_url_rule_witness:
  "process_recognition_result [50504, 45397]
     = Inr [(''song_url'', str ''https://www.youtube.com/results?search_query=%EC%95%88%EB%85%95''),
            (''song_title'', [50504, 45397])]"
proof -
  have n: "[50504, 45397] \<noteq> ([]::nat list)" by simp
  have w: "wf_text [50504, 45397]" by (simp add: wf_text_def is_scalar_def)
  have p: "percent_encode [50504, 45397] = Some (str ''%EC%95%88%EB%85%95'')"
    by (simp add: percent_encode_def utf8_char_def pct_byte_def unreserved_def hexdigit_def str_def)
  have f: "plus_for_space (str ''%EC%95%88%EB%85%95'') = str ''%EC%95%88%EB%85%95''"
    by (simp add: str_def)
  have t: "title_rule [50504, 45397] = [50504, 45397]" by (simp add: title_rule_def)
  show ?thesis using search_url_rule [OF n w, of "[]"] p f t by (auto simp: str_def)
qed

text \<open>
  The claim as stated fails on a transcript with a space: the URL ends in \<open>a+b\<close>, the
  percent-encoding of the transcript is \<open>a%20b\<close>.
\<close>

theorem search_url_rule_counterexample:
  "process_recognition_result (str ''a b'')
     = Inr [(''song_url'', str ''https://www.youtube.com/results?search_query=a+b''),
            (''song_title'', str ''a b'')]
   \<and> percent_encode (str ''a b'') = Some (str ''a%20b'')"
proof -
  have n: "str ''a b'' \<noteq> []" by (simp add: str_def)
  have "process_recognition_result (str ''a b'')
        = Inr [(''song_url'', youtube_search @ str ''a+b''), (''song_title'', title_rule (str ''a b''))]"
    using prr_nonempty [OF n quote_plus_a_b] .
  moreover have "title_rule (str ''a b'') = str ''a b''" by (simp add: title_rule_def str_def)
  moreover have "percent_encode (str ''a b'') = Some (str ''a%20b'')"
    by (simp add: percent_encode_def utf8_char_def pct_byte_def unreserved_def hexdigit_def str_def)
  ultimately show ?thesis by (simp add: youtube_search_def str_def)
qed

text \<open>
  Claim C2, as amended. For a non-empty transcript of well-formed text, decoding the
  query value of the produced URL as a form value (\<open>+\<close> read as a space, then
  percent-decoding, then UTF-8) gives back the transcript; plain percent-decoding gives
  it back when the transcript has no space.
\<close>

theorem url_round_trip:
  assumes "T \<noteq> []" and "wf_text T"
  shows "\<exists>u v. process_recognition_result T = Inr [(''song_url'', u), (''song_title'', title_rule T)]
          \<and> fst (process_recognition_result_etc T out)
              = Inr [(''song_url'', v), (''song_title'', title_rule T)]
          \<and> unquote_plus (query_value u) = Some T
          \<and> unquote_plus (query_value v) = Some T
          \<and> (32 \<notin> set T \<longrightarrow> unquote (query_value u) = Some T \<and> unquote (query_value v) = Some T)"
proof -
  from assms(2) obtain q where q: "quote_plus T = Inr q"
    using quote_plus_wf [of T] by auto
  have d: "unquote_plus q = Some T" using q by (rule quote_plus_unquote_plus)
  have e: "32 \<notin> set T \<Longrightarrow> unquote q = Some T"
  proof -
    assume "32 \<notin> set T"
    with q have "quote T [] = Inr q" by (simp add: quote_plus_def)
    then show ?thesis by (rule quote_unquote) simp
  qed
  show ?thesis
    using prr_nonempty [OF assms(1) q] prr_etc_nonempty [OF assms(1) q, of out] d e
    by (simp add: query_value_youtube query_value_bugs)
qed

theorem url_round_trip_witness:
  "\<exists>u. process_recognition_result [50504, 45397, 32, 97]
          = Inr [(''song_url'', u), (''song_title'', [50504, 45397, 32, 97])]
        \<and> unquote_plus (query_value u) = Some [50504, 45397, 32, 97]"
proof -
  have n: "[50504, 45397, 32, 97] \<noteq> ([]::nat list)" by simp
  have w: "wf_text [50504, 45397, 32, 97]" by (simp add: wf_text_def is_scalar_def)
  have t: "title_rule [50504, 45397, 32, 97] = [50504, 45397, 32, 97]" by (simp add: title_rule_def)
  show ?thesis using url_round_trip [OF n w, of "[]"] unfolding t by blast
qed

text \<open>
  Plain percent-decoding does not give back a transcript with a space: the query value
  of the URL built for \<open>a b\<close> decodes to \<open>a+b\<close>.
\<close>

theorem url_round_trip_counterexample:
  "process_recognition_result (str ''a b'')
     = Inr [(''song_url'', youtube_search @ str ''a+b''), (''song_title'', str ''a b'')]
   \<and> unquote (query_value (youtube_search @ str ''a+b'')) = Some (str ''a+b'')
   \<and> str ''a+b'' \<noteq> str ''a b''"
proof -
  have n: "str ''a b'' \<noteq> []" by (simp add: str_def)
  have "process_recognition_result (str ''a b'')
        = Inr [(''song_url'', youtube_search @ str ''a+b''), (''song_title'', title_rule (str ''a b''))]"
    using prr_nonempty [OF n quote_plus_a_b] .
  moreover have "title_rule (str ''a b'') = str ''a b''" by (simp add: title_rule_def str_def)
  moreover have "unquote (str ''a+b'') = Some (str ''a+b'')"
    by (simp add: unquote_def str_def)
  ultimately show ?thesis by (simp add: query_value_youtube) (simp add: str_def)
qed

text \<open>
  Claim C9, as amended. The result of the builder of \<open>main_etc.py\<close> does not depend on
  the console, so a second call with the same transcript returns the same value as the
  first; its one effect is to append at most one line to the console (exactly one when
  it returns a dictionary). The builder of \<open>main.py\<close> prints nothing and is a function
  of the transcript alone; the two builders raise on the same inputs and otherwise
  return dictionaries with the same keys and the same title.
\<close>

theorem query_builder_repeatable:
  "fst (process_recognition_result_etc T out) = fst (process_recognition_result_etc T out')
   \<and> (case process_recognition_result_etc T out of
         (r1, out1) \<Rightarrow> fst (process_recognition_result_etc T out1) = r1)
   \<and> (\<exists>l. snd (process_recognition_result_etc T out) = out @ l \<and> length l \<le> 1)
   \<and> (\<forall>d. fst (process_recognition_result_etc T out) = Inr d \<longrightarrow>
          length (snd (process_recognition_result_etc T out)) = Suc (length out))
   \<and> (case process_recognition_result T of
         Inl e \<Rightarrow> fst (process_recognition_result_etc T out) = Inl e
       | Inr d \<Rightarrow> (\<exists>d'. fst (process_recognition_result_etc T out) = Inr d'
                         \<and> keys d' = keys d \<and> map_of d' ''song_title'' = map_of d ''song_title''))"
proof (cases "T = []")
  case True
  then show ?thesis by (simp add: prr_empty prr_etc_empty)
next
  case False
  show ?thesis
  proof (cases "quote_plus T")
    case (Inl e)
    then show ?thesis using prr_raises [OF False Inl] prr_etc_raises [OF False Inl]
      by simp
  next
    case (Inr q)
    then show ?thesis using prr_nonempty [OF False Inr] prr_etc_nonempty [OF False Inr]
      by (simp add: keys_def)
  qed
qed

theorem query_builder_repeatable_witness:
  "fst (process_recognition_result_etc [97] []) = fst (process_recognition_result_etc [97] [MsgNoText])
   \<and> length (snd (process_recognition_result_etc [97] [])) = 1"
proof -
  have "wf_text [97]" by (simp add: wf_text_def is_scalar_def)
  then obtain q where "quote_plus [97] = Inr q" using quote_plus_wf [of "[97]"] by auto
  then have "\<exists>d. fst (process_recognition_result_etc [97] []) = Inr d"
    using prr_etc_nonempty [of "[97]" q "[]"] by simp
  then show ?thesis using query_builder_repeatable [of "[97]" "[]" "[MsgNoText]"] by auto
qed

text \<open>
  The builder of \<open>main_etc.py\<close> is not free of side effects: on both of its returning
  paths it prints a line.
\<close>

theorem query_builder_prints_counterexample:
  "snd (process_recognition_result_etc (str ''a'') [])
     = [MsgCreatedUrl (str ''https://music.bugs.co.kr/search/lyrics?q=a'')]
   \<and> snd (process_recognition_result_etc [] []) = [MsgNoText]"
proof -
  have n: "str ''a'' \<noteq> []" by (simp add: str_def)
  have q: "quote_plus (str ''a'') = Inr (str ''a'')"
    by (simp add: quote_plus_def quote_def str_def utf8_char_def quote_from_bytes_def
      quoter_def ALWAYS_SAFE_def)
  show ?thesis using prr_etc_nonempty [OF n q, of "[]"] prr_etc_empty [of "[]"]
    by (simp add: bugs_search_def str_def)
qed

section \<open>The navigation sequence\<close>

lemma switch_loop_eq:
  "switch_loop b m hs s =
     (case List.find (\<lambda>h. h \<noteq> m) hs of
        None \<Rightarrow> (True, s)
      | Some h \<Rightarrow>
          if switch_fails b h then (False, emit (SwitchTo h) s)
          else (True, print MsgSwitched ((emit (SwitchTo h) s)\<lparr>active := h\<rparr>)))"
  by (induction hs) (simp_all add: switch_to_window_def)

lemma switch_window_eq:
  "switch_window b s =
     s\<lparr>active := switch_target b (active s), trace := trace s @ switch_events b (active s)\<rparr>"
  by (simp add: switch_window_def current_window_handle_def window_handles_def switch_loop_eq
      switch_events_def switch_target_def emit_def print_def split: option.splits)

lemma dismiss_popup_eq: "dismiss_popup b s = s\<lparr>trace := trace s @ popup_events b\<rparr>"
  by (simp add: dismiss_popup_def find_and_click_def find_element_def click_def
      popup_events_def emit_def print_def)

lemma engage_playback_eq: "engage_playback b s = s\<lparr>trace := trace s @ playback_events b\<rparr>"
  by (simp add: engage_playback_def find_and_click_def find_element_def click_def
      execute_script_def playback_events_def emit_def print_def)

lemma run_etc_launch_fails:
  "launch_fails b \<Longrightarrow>
   open_song_with_selenium_etc b url
     = (ReturnNone, \<lparr>active = first_window b, alive = False,
                      trace = [Launch, Print MsgDriverFailed]\<rparr>)"
  by (simp add: open_song_with_selenium_etc_def launch_def initial_def emit_def print_def)

lemma run_etc_get_fails:
  "\<not> launch_fails b \<Longrightarrow> get_fails b \<Longrightarrow>
   open_song_with_selenium_etc b url
     = (if quit_fails b then Raised else ReturnNone,
        \<lparr>active = first_window b, alive = quit_fails b,
         trace = [Launch, Print MsgDriverStarted, Get url, Print MsgPageFailed, Quit]\<rparr>)"
  by (simp add: open_song_with_selenium_etc_def launch_def initial_def emit_def print_def
      driver_get_def quit_and_return_None_def quit_def)

lemma run_etc_step2_fails:
  "\<not> launch_fails b \<Longrightarrow> \<not> get_fails b \<Longrightarrow>
   find_fails b FirstPlay \<or> click_fails b FirstPlay \<Longrightarrow>
   open_song_with_selenium_etc b url
     = (if quit_fails b then Raised else ReturnNone,
        \<lparr>active = first_window b, alive = quit_fails b,
         trace = [Launch, Print MsgDriverStarted, Get url, Print (MsgPageOpened url), Sleep 5,
                  Find FirstPlay]
                 @ (if find_fails b FirstPlay then [] else [Click FirstPlay])
                 @ [Print MsgFirstPlayFailed, Quit]\<rparr>)"
  by (auto simp: open_song_with_selenium_etc_def launch_def initial_def emit_def print_def
      sleep_def driver_get_def quit_and_return_None_def quit_def find_and_click_def
      find_element_def click_def)

lemma run_etc_step2_ok:
  "\<not> launch_fails b \<Longrightarrow> \<not> get_fails b \<Longrightarrow>
   \<not> find_fails b FirstPlay \<Longrightarrow> \<not> click_fails b FirstPlay \<Longrightarrow>
   open_song_with_selenium_etc b url
     = (ReturnDriver,
        \<lparr>active = switch_target b (first_window b), alive = True,
         trace = [Launch, Print MsgDriverStarted, Get url, Print (MsgPageOpened url), Sleep 5,
                  Find FirstPlay, Click FirstPlay, Print MsgFirstPlayClicked, Sleep 3,
                  Print MsgPlayerSelectSkipped, Sleep 4]
                 @ switch_events b (first_window b) @ [Sleep 4]
                 @ popup_events b @ [Sleep 2]
                 @ playback_events b\<rparr>)"
  by (simp add: open_song_with_selenium_etc_def launch_def initial_def emit_def print_def
      sleep_def driver_get_def find_and_click_def find_element_def click_def
      switch_window_eq dismiss_popup_eq engage_playback_eq Let_def)

lemma run_launch_fails:
  "launch_fails b \<Longrightarrow>
   open_song_with_selenium b url
     = (Raised, \<lparr>active = first_window b, alive = False, trace = [Launch]\<rparr>)"
  by (simp add: open_song_with_selenium_def launch_def initial_def emit_def)

lemma run_get_fails:
  "\<not> launch_fails b \<Longrightarrow> get_fails b \<Longrightarrow>
   open_song_with_selenium b url
     = (Raised, \<lparr>active = first_window b, alive = True, trace = [Launch, Get url]\<rparr>)"
  by (simp add: open_song_with_selenium_def launch_def initial_def emit_def driver_get_def)

lemma run_step2_fails:
  "\<not> launch_fails b \<Longrightarrow> \<not> get_fails b \<Longrightarrow>
   find_fails b ShortsLink \<or> click_fails b ShortsLink \<Longrightarrow>
   open_song_with_selenium b url
     = (ReturnDriver,
        \<lparr>active = first_window b, alive = True,
         trace = [Launch, Get url, Sleep 5, Find ShortsLink]
                 @ (if find_fails b ShortsLink then [] else [Click ShortsLink])
                 @ [Print MsgShortsFailed]\<rparr>)"
  by (auto simp: open_song_with_selenium_def launch_def initial_def emit_def print_def
      sleep_def driver_get_def find_and_click_def find_element_def click_def)

lemma run_step2_ok:
  "\<not> launch_fails b \<Longrightarrow> \<not> get_fails b \<Longrightarrow>
   \<not> find_fails b ShortsLink \<Longrightarrow> \<not> click_fails b ShortsLink \<Longrightarrow>
   open_song_with_selenium b url
     = (ReturnDriver,
        \<lparr>active = first_window b, alive = True,
         trace = [Launch, Get url, Sleep 5, Find ShortsLink, Click ShortsLink,
                  Print MsgShortsClicked, Sleep 5, ExecuteScript VideoPlay,
                  Print (if script_fails b VideoPlay then MsgVideoPlayFailed
                         else MsgVideoPlayCalled)]\<rparr>)"
  by (simp add: open_song_with_selenium_def launch_def initial_def emit_def print_def
      sleep_def driver_get_def find_and_click_def find_element_def click_def execute_script_def)

lemma steps_switch:
  "\<exists>n. filter (\<lambda>k. k \<noteq> 0) (map step_of (switch_events b m)) = replicate (Suc n) 3"
proof -
  have "filter (\<lambda>k. k \<noteq> 0) (map step_of (switch_events b m)) \<in> {[3], [3, 3], [3, 3, 3]}"
    by (simp add: switch_events_def split: option.splits)
  moreover have "[3::nat] = replicate (Suc 0) 3" "[3, 3::nat] = replicate (Suc 1) 3"
    "[3, 3, 3::nat] = replicate (Suc 2) 3"
    by (simp_all add: numeral_2_eq_2)
  ultimately show ?thesis by (metis insertE singletonD)
qed

lemma steps_popup:
  "\<exists>n. filter (\<lambda>k. k \<noteq> 0) (map step_of (popup_events b)) = replicate (Suc n) 4"
proof -
  have "filter (\<lambda>k. k \<noteq> 0) (map step_of (popup_events b)) \<in> {[4], [4, 4]}"
    by (simp add: popup_events_def)
  moreover have "[4::nat] = replicate (Suc 0) 4" "[4, 4::nat] = replicate (Suc 1) 4"
    by simp_all
  ultimately show ?thesis by (metis insertE singletonD)
qed

lemma steps_playback:
  "\<exists>n. filter (\<lambda>k. k \<noteq> 0) (map step_of (playback_events b)) = replicate (Suc n) 5"
proof -
  have "filter (\<lambda>k. k \<noteq> 0) (map step_of (playback_events b)) \<in> {[5], [5, 5], [5, 5, 5]}"
    by (simp add: playback_events_def)
  moreover have "[5::nat] = replicate (Suc 0) 5" "[5, 5::nat] = replicate (Suc 1) 5"
    "[5, 5, 5::nat] = replicate (Suc 2) 5"
    by (simp_all add: numeral_2_eq_2)
  ultimately show ?thesis by (metis insertE singletonD)
qed

lemma remdups_adj_twice: "remdups_adj (xs @ x # x # zs) = remdups_adj (xs @ x # zs)"
  by (induction xs rule: remdups_adj.induct) auto

lemma remdups_adj_run: "remdups_adj (xs @ x # replicate n x @ ys) = remdups_adj (xs @ x # ys)"
  by (induction n) (simp_all add: remdups_adj_twice)

lemma steps_tolerant:
  "remdups_adj (filter (\<lambda>k. k \<noteq> 0) (map step_of
     ([Launch, Print MsgDriverStarted, Get url, Print (MsgPageOpened url), Sleep 5,
       Find FirstPlay, Click FirstPlay, Print MsgFirstPlayClicked, Sleep 3,
       Print MsgPlayerSelectSkipped, Sleep 4]
      @ switch_events b m @ [Sleep 4] @ popup_events b @ [Sleep 2] @ playback_events b)))
   = [1, 2, 3, 4, 5]"
proof -
  obtain n3 where a: "filter (\<lambda>k. k \<noteq> 0) (map step_of (switch_events b m)) = replicate (Suc n3) 3"
    using steps_switch by blast
  obtain n4 where b: "filter (\<lambda>k. k \<noteq> 0) (map step_of (popup_events b)) = replicate (Suc n4) 4"
    using steps_popup by blast
  obtain n5 where c: "filter (\<lambda>k. k \<noteq> 0) (map step_of (playback_events b)) = replicate (Suc n5) 5"
    using steps_playback by blast
  have e: "filter (\<lambda>k. k \<noteq> 0) (map step_of
     ([Launch, Print MsgDriverStarted, Get url, Print (MsgPageOpened url), Sleep 5,
       Find FirstPlay, Click FirstPlay, Print MsgFirstPlayClicked, Sleep 3,
       Print MsgPlayerSelectSkipped, Sleep 4]
      @ switch_events b m @ [Sleep 4] @ popup_events b @ [Sleep 2] @ playback_events b))
     = [1, 2, 2] @ 3 # replicate n3 3 @ (4 # replicate n4 4 @ 5 # replicate n5 5 @ [])"
    unfolding map_append filter_append a b c by simp
  have "remdups_adj ([1, 2, 2] @ 3 # replicate n3 3 @ (4 # replicate n4 4 @ 5 # replicate n5 5 @ []))
        = remdups_adj ([1, 2, 2] @ 3 # (4 # replicate n4 4 @ 5 # replicate n5 5 @ []))"
    by (rule remdups_adj_run)
  also have "\<dots> = remdups_adj ([1, 2, 2, 3] @ 4 # replicate n4 4 @ (5 # replicate n5 5 @ []))"
    by simp
  also have "\<dots> = remdups_adj ([1, 2, 2, 3] @ 4 # (5 # replicate n5 5 @ []))"
    by (rule remdups_adj_run)
  also have "\<dots> = remdups_adj ([1, 2, 2, 3, 4] @ 5 # replicate n5 5 @ [])"
    by simp
  also have "\<dots> = remdups_adj ([1, 2, 2, 3, 4] @ 5 # [])"
    by (rule remdups_adj_run)
  also have "\<dots> = [1, 2, 3, 4, 5::nat]" by simp
  finally show ?thesis unfolding e .
qed

lemma steps_run_simps:
  "steps_run \<lparr>active = a, alive = l, trace = t\<rparr>
   = remdups_adj (filter (\<lambda>k. k \<noteq> 0) (map step_of t))"
  by (simp add: steps_run_def)

text \<open>
  Claim C1. Against every simulated session in which the browser starts: when the lookup
  or the click of step 2 fails, \<open>main_etc.py\<close> runs steps 1 and 2 only, ends with the
  teardown and does not return the driver, and \<open>main.py\<close> runs steps 1 and 2 only, calls
  no script and returns at once; when step 1 fails no later step runs in either script;
  and when steps 1 and 2 go through, \<open>main_etc.py\<close> runs the steps 1, 2, 3, 4, 5 in this
  order and returns the driver, whatever fails in steps 3, 4 and 5.
\<close>

theorem abort_and_skip:
  assumes "\<not> launch_fails b"
  shows "(\<not> get_fails b \<and> (find_fails b FirstPlay \<or> click_fails b FirstPlay) \<longrightarrow>
            (case open_song_with_selenium_etc b url of
               (r, s) \<Rightarrow> r \<noteq> ReturnDriver \<and> steps_run s = [1, 2] \<and> last (trace s) = Quit))
       \<and> (\<not> get_fails b \<and> (find_fails b ShortsLink \<or> click_fails b ShortsLink) \<longrightarrow>
            (case open_song_with_selenium b url of
               (r, s) \<Rightarrow> r = ReturnDriver \<and> steps_run s = [1, 2] \<and> script_calls s = 0
                         \<and> last (trace s) = Print MsgShortsFailed))
       \<and> (get_fails b \<longrightarrow>
            (case open_song_with_selenium_etc b url of
               (r, s) \<Rightarrow> r \<noteq> ReturnDriver \<and> steps_run s = [1] \<and> last (trace s) = Quit)
            \<and> (case open_song_with_selenium b url of
               (r, s) \<Rightarrow> r = Raised \<and> steps_run s = [1]))
       \<and> (\<not> get_fails b \<and> \<not> find_fails b FirstPlay \<and> \<not> click_fails b FirstPlay \<longrightarrow>
            (case open_song_with_selenium_etc b url of
               (r, s) \<Rightarrow> r = ReturnDriver \<and> steps_run s = [1, 2, 3, 4, 5]))"
proof (intro conjI impI)
  assume h: "\<not> get_fails b \<and> (find_fails b FirstPlay \<or> click_fails b FirstPlay)"
  then show "case open_song_with_selenium_etc b url of
               (r, s) \<Rightarrow> r \<noteq> ReturnDriver \<and> steps_run s = [1, 2] \<and> last (trace s) = Quit"
    using run_etc_step2_fails [OF assms, of url] by (simp add: steps_run_simps)
next
  assume h: "\<not> get_fails b \<and> (find_fails b ShortsLink \<or> click_fails b ShortsLink)"
  then show "case open_song_with_selenium b url of
               (r, s) \<Rightarrow> r = ReturnDriver \<and> steps_run s = [1, 2] \<and> script_calls s = 0
                         \<and> last (trace s) = Print MsgShortsFailed"
    using run_step2_fails [OF assms, of url] by (simp add: steps_run_simps script_calls_def)
next
  assume h: "get_fails b"
  then show "case open_song_with_selenium_etc b url of
               (r, s) \<Rightarrow> r \<noteq> ReturnDriver \<and> steps_run s = [1] \<and> last (trace s) = Quit"
    using run_etc_get_fails [OF assms, of url] by (simp add: steps_run_simps)
next
  assume h: "get_fails b"
  then show "case open_song_with_selenium b url of (r, s) \<Rightarrow> r = Raised \<and> steps_run s = [1]"
    using run_get_fails [OF assms, of url] by (simp add: steps_run_simps)
next
  assume h: "\<not> get_fails b \<and> \<not> find_fails b FirstPlay \<and> \<not> click_fails b FirstPlay"
  then show "case open_song_with_selenium_etc b url of
               (r, s) \<Rightarrow> r = ReturnDriver \<and> steps_run s = [1, 2, 3, 4, 5]"
  proof -
    from h have ok: "\<not> get_fails b" "\<not> find_fails b FirstPlay" "\<not> click_fails b FirstPlay"
      by simp_all
    have "steps_run (snd (open_song_with_selenium_etc b url)) = [1, 2, 3, 4, 5]"
      unfolding run_etc_step2_ok [OF assms ok] snd_conv steps_run_simps by (rule steps_tolerant)
    moreover have "fst (open_song_with_selenium_etc b url) = ReturnDriver"
      unfolding run_etc_step2_ok [OF assms ok] by simp
    ultimately show ?thesis by (simp add: case_prod_beta)
  qed
qed

theorem abort_and_skip_witness:
  "(case open_song_with_selenium_etc (sim\<lparr>find_fails := (\<lambda>sel. sel = FirstPlay)\<rparr>) [117] of
      (r, s) \<Rightarrow> r \<noteq> ReturnDriver \<and> steps_run s = [1, 2] \<and> last (trace s) = Quit)
   \<and> (case open_song_with_selenium_etc
             (sim\<lparr>current_handle_fails := True, find_fails := (\<lambda>sel. sel = ClosePopup)\<rparr>) [117] of
      (r, s) \<Rightarrow> r = ReturnDriver \<and> steps_run s = [1, 2, 3, 4, 5])"
  using abort_and_skip [of "sim\<lparr>find_fails := (\<lambda>sel. sel = FirstPlay)\<rparr>" "[117]"]
    abort_and_skip [of "sim\<lparr>current_handle_fails := True,
                            find_fails := (\<lambda>sel. sel = ClosePopup)\<rparr>" "[117]"]
  by (simp add: sim_def)

text \<open>
  Claim C3. In every run of \<open>main_etc.py\<close> that reaches step 5 and in which the lookup or
  the click of the play button fails, the script call is made exactly once, and whether
  or not it fails the function returns the driver: the browser is running and was not
  quit.
\<close>

theorem playback_fallback_once:
  assumes "\<not> launch_fails b" and "\<not> get_fails b"
    and "\<not> find_fails b FirstPlay" and "\<not> click_fails b FirstPlay"
    and "find_fails b PlayBtn \<or> click_fails b PlayBtn"
  shows "case open_song_with_selenium_etc b url of
           (r, s) \<Rightarrow> r = ReturnDriver \<and> script_calls s = 1 \<and> alive s \<and> \<not> torn_down s
                     \<and> ExecuteScript AudioPlay \<in> set (trace s)
                     \<and> last (trace s) = Print (if script_fails b AudioPlay then MsgPlayAllFailed
                                                else MsgAudioPlayCalled)"
proof -
  have a: "filter (\<lambda>e. case e of ExecuteScript sc \<Rightarrow> True | _ \<Rightarrow> False) (switch_events b m) = []"
    "Quit \<notin> set (switch_events b m)" for m
    by (simp_all add: switch_events_def split: option.splits)
  have p: "filter (\<lambda>e. case e of ExecuteScript sc \<Rightarrow> True | _ \<Rightarrow> False) (popup_events b) = []"
    "Quit \<notin> set (popup_events b)"
    by (simp_all add: popup_events_def)
  have e: "playback_events b
           = (if find_fails b PlayBtn then [Find PlayBtn] else [Find PlayBtn, Click PlayBtn])
             @ [ExecuteScript AudioPlay,
                Print (if script_fails b AudioPlay then MsgPlayAllFailed else MsgAudioPlayCalled)]"
    using assms(5) by (simp add: playback_events_def)
  show ?thesis
    using run_etc_step2_ok [OF assms(1-4), of url] a p
    by (simp add: script_calls_def torn_down_def e)
qed

theorem playback_fallback_once_witness:
  "case open_song_with_selenium_etc
          (sim\<lparr>find_fails := (\<lambda>sel. sel = PlayBtn), script_fails := (\<lambda>sc. True)\<rparr>) [117] of
     (r, s) \<Rightarrow> r = ReturnDriver \<and> script_calls s = 1 \<and> alive s \<and> \<not> torn_down s
               \<and> last (trace s) = Print MsgPlayAllFailed"
  using playback_fallback_once
    [of "sim\<lparr>find_fails := (\<lambda>sel. sel = PlayBtn), script_fails := (\<lambda>sc. True)\<rparr>" "[117]"]
  by (simp add: sim_def split: prod.splits)

text \<open>
  Claim C5, as amended. When the launch fails, \<open>main_etc.py\<close> prints and returns \<open>None\<close>
  and \<open>main.py\<close> lets the exception out, both without any navigation step. When opening
  the URL fails, \<open>main_etc.py\<close> stops, calls \<open>quit\<close> and returns \<open>None\<close> (the exception
  of a failing \<open>quit\<close> would leave the function); \<open>main.py\<close> lets the exception out and
  leaves the browser running.
\<close>

theorem launch_and_page_failure:
  "(launch_fails b \<longrightarrow>
      open_song_with_selenium_etc b url
        = (ReturnNone, \<lparr>active = first_window b, alive = False,
                         trace = [Launch, Print MsgDriverFailed]\<rparr>)
      \<and> open_song_with_selenium b url
        = (Raised, \<lparr>active = first_window b, alive = False, trace = [Launch]\<rparr>))
   \<and> (\<not> launch_fails b \<and> get_fails b \<longrightarrow>
      open_song_with_selenium_etc b url
        = (if quit_fails b then Raised else ReturnNone,
           \<lparr>active = first_window b, alive = quit_fails b,
            trace = [Launch, Print MsgDriverStarted, Get url, Print MsgPageFailed, Quit]\<rparr>)
      \<and> torn_down (snd (open_song_with_selenium_etc b url))
      \<and> open_song_with_selenium b url
        = (Raised, \<lparr>active = first_window b, alive = True, trace = [Launch, Get url]\<rparr>))"
  using run_etc_launch_fails [of b url] run_launch_fails [of b url]
    run_etc_get_fails [of b url] run_get_fails [of b url]
  by (simp add: torn_down_def)

theorem launch_and_page_failure_witness:
  "open_song_with_selenium_etc (sim\<lparr>launch_fails := True\<rparr>) [117]
     = (ReturnNone, \<lparr>active = ''w0'', alive = False, trace = [Launch, Print MsgDriverFailed]\<rparr>)
   \<and> open_song_with_selenium_etc (sim\<lparr>get_fails := True\<rparr>) [117]
     = (ReturnNone, \<lparr>active = ''w0'', alive = False,
          trace = [Launch, Print MsgDriverStarted, Get [117], Print MsgPageFailed, Quit]\<rparr>)"
  using launch_and_page_failure [of "sim\<lparr>launch_fails := True\<rparr>" "[117]"]
    launch_and_page_failure [of "sim\<lparr>get_fails := True\<rparr>" "[117]"]
  by (simp add: sim_def)

text \<open>
  In \<open>main.py\<close> a failing \<open>driver.get\<close> is not followed by a teardown: the run ends
  with the browser alive and no \<open>quit\<close> in its trace.
\<close>

theorem page_failure_counterexample:
  "open_song_with_selenium (sim\<lparr>get_fails := True\<rparr>) [117]
     = (Raised, \<lparr>active = ''w0'', alive = True, trace = [Launch, Get [117]]\<rparr>)
   \<and> \<not> torn_down (snd (open_song_with_selenium (sim\<lparr>get_fails := True\<rparr>) [117]))"
proof -
  have "open_song_with_selenium (sim\<lparr>get_fails := True\<rparr>) [117]
     = (Raised, \<lparr>active = ''w0'', alive = True, trace = [Launch, Get [117]]\<rparr>)"
    using run_get_fails [of "sim\<lparr>get_fails := True\<rparr>" "[117]"] by (simp add: sim_def)
  then show ?thesis by (simp add: torn_down_def)
qed

lemma find_other:
  "distinct hs \<Longrightarrow> length hs > 1 \<Longrightarrow> \<exists>h. List.find (\<lambda>h. h \<noteq> m) hs = Some h"
proof (cases hs)
  case Nil
  assume "length hs > 1"
  with Nil show ?thesis by simp
next
  case (Cons x xs)
  assume d: "distinct hs" and l: "length hs > 1"
  with Cons obtain y ys where xs: "xs = y # ys" by (cases xs) auto
  with Cons d have "x \<noteq> y" by auto
  then show ?thesis using Cons xs by (cases "x = m") auto
qed

lemma switch_found:
  assumes "\<not> current_handle_fails b" and "\<not> window_handles_fails b"
    and "length (opened_windows b) > 1"
    and "List.find (\<lambda>h. h \<noteq> m) (opened_windows b) = Some h" and "\<not> switch_fails b h"
  shows "switch_target b m = h" and "SwitchTo h \<in> set (switch_events b m)"
  using assms by (simp_all add: switch_target_def switch_events_def)

lemma switch_short:
  assumes "length (opened_windows b) \<le> 1"
  shows "switch_target b m = m" and "SwitchTo h \<notin> set (switch_events b m)"
  using assms by (simp_all add: switch_target_def switch_events_def)

lemma switch_events_no_quit: "Quit \<notin> set (switch_events b m)"
  by (simp add: switch_events_def split: option.splits)

lemma popup_events_facts: "Quit \<notin> set (popup_events b)" "Find ClosePopup \<in> set (popup_events b)"
  by (simp_all add: popup_events_def)

lemma playback_events_facts: "Quit \<notin> set (playback_events b)" "Find PlayBtn \<in> set (playback_events b)"
  by (simp_all add: playback_events_def)

lemma active_switch_window: "active (switch_window b s) = switch_target b (active s)"
  by (simp add: switch_window_eq)

lemma trace_switch_window: "trace (switch_window b s) = trace s @ switch_events b (active s)"
  by (simp add: switch_window_eq)

text \<open>
  Claim C6. In the window switch of \<open>main_etc.py\<close>: with more than one window, the first
  enumerated handle that differs from the current one becomes active (such a handle exists
  when the handles are distinct); with at most one window the active window stays and no
  switch is issued; the step never quits the browser, and in every run that reaches it
  the overlay and playback steps follow and the driver is returned, whatever the step's
  own calls did.
\<close>

theorem context_switch:
  "(\<not> current_handle_fails b \<and> \<not> window_handles_fails b \<and> length (opened_windows b) > 1
      \<and> List.find (\<lambda>h. h \<noteq> active s) (opened_windows b) = Some h \<and> \<not> switch_fails b h
      \<longrightarrow> active (switch_window b s) = h \<and> SwitchTo h \<in> set (trace (switch_window b s)))
   \<and> (distinct (opened_windows b) \<and> length (opened_windows b) > 1
      \<longrightarrow> (\<exists>h. List.find (\<lambda>h. h \<noteq> active s) (opened_windows b) = Some h))
   \<and> (length (opened_windows b) \<le> 1
      \<longrightarrow> active (switch_window b s) = active s
          \<and> (\<forall>h. SwitchTo h \<in> set (trace (switch_window b s)) \<longrightarrow> SwitchTo h \<in> set (trace s)))
   \<and> alive (switch_window b s) = alive s
   \<and> (torn_down (switch_window b s) = torn_down s)
   \<and> (\<not> launch_fails b \<and> \<not> get_fails b \<and> \<not> find_fails b FirstPlay \<and> \<not> click_fails b FirstPlay
      \<longrightarrow> (case open_song_with_selenium_etc b url of
             (r, s') \<Rightarrow> r = ReturnDriver \<and> Find ClosePopup \<in> set (trace s')
                        \<and> Find PlayBtn \<in> set (trace s') \<and> \<not> torn_down s'
                        \<and> active s' = switch_target b (first_window b)))"
proof (intro conjI impI)
  assume h: "\<not> current_handle_fails b \<and> \<not> window_handles_fails b \<and> length (opened_windows b) > 1
      \<and> List.find (\<lambda>h. h \<noteq> active s) (opened_windows b) = Some h \<and> \<not> switch_fails b h"
  then have "switch_target b (active s) = h" and "SwitchTo h \<in> set (switch_events b (active s))"
    using switch_found [of b "active s" h] by blast+
  then show "active (switch_window b s) = h" "SwitchTo h \<in> set (trace (switch_window b s))"
    by (simp_all add: active_switch_window trace_switch_window)
next
  assume "distinct (opened_windows b) \<and> length (opened_windows b) > 1"
  then show "\<exists>h. List.find (\<lambda>h. h \<noteq> active s) (opened_windows b) = Some h"
    using find_other [of "opened_windows b" "active s"] by simp
next
  assume h: "length (opened_windows b) \<le> 1"
  show "active (switch_window b s) = active s"
    using switch_short(1) [OF h] by (simp add: active_switch_window)
  show "\<forall>h. SwitchTo h \<in> set (trace (switch_window b s)) \<longrightarrow> SwitchTo h \<in> set (trace s)"
    using switch_short(2) [OF h] by (simp add: trace_switch_window)
next
  show "alive (switch_window b s) = alive s" by (simp add: switch_window_eq)
next
  show "torn_down (switch_window b s) = torn_down s"
    using switch_events_no_quit [of b "active s"] by (simp add: trace_switch_window torn_down_def)
next
  assume h: "\<not> launch_fails b \<and> \<not> get_fails b \<and> \<not> find_fails b FirstPlay \<and> \<not> click_fails b FirstPlay"
  then have r: "open_song_with_selenium_etc b url
     = (ReturnDriver,
        \<lparr>active = switch_target b (first_window b), alive = True,
         trace = [Launch, Print MsgDriverStarted, Get url, Print (MsgPageOpened url), Sleep 5,
                  Find FirstPlay, Click FirstPlay, Print MsgFirstPlayClicked, Sleep 3,
                  Print MsgPlayerSelectSkipped, Sleep 4]
                 @ switch_events b (first_window b) @ [Sleep 4]
                 @ popup_events b @ [Sleep 2]
                 @ playback_events b\<rparr>)"
    using run_etc_step2_ok [of b url] by blast
  show "case open_song_with_selenium_etc b url of
             (r, s') \<Rightarrow> r = ReturnDriver \<and> Find ClosePopup \<in> set (trace s')
                        \<and> Find PlayBtn \<in> set (trace s') \<and> \<not> torn_down s'
                        \<and> active s' = switch_target b (first_window b)"
    unfolding r
    using switch_events_no_quit [of b "first_window b"] popup_events_facts [of b]
      playback_events_facts [of b]
    by (simp add: torn_down_def)
qed

theorem context_switch_witness:
  "active (switch_window sim (initial sim)) = ''w1''
   \<and> active (switch_window (sim\<lparr>opened_windows := [''w0'']\<rparr>) (initial sim)) = ''w0''
   \<and> (case open_song_with_selenium_etc (sim\<lparr>window_handles_fails := True\<rparr>) [117] of
         (r, s') \<Rightarrow> r = ReturnDriver \<and> Find ClosePopup \<in> set (trace s') \<and> active s' = ''w0'')"
proof -
  have i: "active (initial sim) = ''w0''" by (simp add: initial_def sim_def)
  have t: "switch_target (sim\<lparr>window_handles_fails := True\<rparr>) ''w0'' = ''w0''"
    by (simp add: switch_target_def)
  show ?thesis
    using context_switch [of sim "initial sim" "''w1''" "[117]"]
      context_switch [of "sim\<lparr>opened_windows := [''w0'']\<rparr>" "initial sim" "''w1''" "[117]"]
      context_switch [of "sim\<lparr>window_handles_fails := True\<rparr>" "initial sim" "''w1''" "[117]"]
      i t
    by (simp add: sim_def split: prod.splits)
qed

end
